theory Spec2Isabelle
  imports Main "HOL-Library.AList" "HOL-Library.Multiset"
begin

section \<open>The watch-api client of \<^verbatim>\<open>src/common/kube-helpers.ts\<close> (class \<^verbatim>\<open>KubeWatchApi\<close>)\<close>

text \<open>
  The class keeps a reference-counted map of subscribed \<^verbatim>\<open>KubeApi\<close> objects, opens one
  streaming request for all of them, splits every chunk of the stream into lines, parses each
  line and hands a message to the listeners of \<^verbatim>\<open>onMessage\<close>.

  The embedding is shallow. Mutation of \<^verbatim>\<open>this\<close> is explicit state passing over the record
  \<open>watch_state\<close>; everything the class does to the outside (console output, timers, requests,
  emitted messages, calls of \<^verbatim>\<open>refreshResourceVersion\<close>) is a field of that record, appended
  to in the order of the calls. Collaborators that are imported from other files
  (\<^verbatim>\<open>apiManager\<close>, \<^verbatim>\<open>KubeApi\<close>, the cluster, the namespace store, \<^verbatim>\<open>JSON.parse\<close>,
  \<^verbatim>\<open>TextDecoder\<close>, the constant \<^verbatim>\<open>isProduction\<close>) are the fields of the record \<open>watch_env\<close>.
  The type variable \<open>'a\<close> stands for \<^verbatim>\<open>KubeApi\<close> objects (HOL equality on it is the object
  identity that the JavaScript \<^verbatim>\<open>Map\<close> compares keys with), \<open>'s\<close> for stores.
\<close>

subsection \<open>Data\<close>

text \<open>\<^verbatim>\<open>KubeJsonApiData\<close>: the fields of an object that the class reads or writes.\<close>

record metadata =
  namespace :: "string option"
  resourceVersion :: string
  selfLink :: "string option"

record kube_object =
  kind :: string
  apiVersion :: string
  metadata :: metadata

text \<open>
  A decoded wire record, \<^verbatim>\<open>{ type, object?, url? }\<close>. The tag is a string because it comes
  from the wire: \<^verbatim>\<open>getMessage\<close> compares it with five literals and has no default branch.
\<close>

record watch_event =
  type :: string
  object :: "kube_object option"
  url :: "string option"

text \<open>\<^verbatim>\<open>IKubeWatchMessage\<close>: four optional fields, all absent in \<^verbatim>\<open>{}\<close>.\<close>

record ('a, 's) watch_message =
  data :: "watch_event option"
  error :: "watch_event option"
  api :: "'a option"
  store :: "'s option"

definition emptyMessage :: "('a, 's) watch_message" where
  "emptyMessage = \<lparr>data = None, error = None, api = None, store = None\<rparr>"

text \<open>
  What \<^verbatim>\<open>log\<close> writes: \<^verbatim>\<open>console.error\<close> for an \<^verbatim>\<open>Error\<close> message, \<^verbatim>\<open>console.info\<close>
  otherwise. The text is the message before formatting; the meta object is left out.
\<close>

datatype console_line = ConsoleError string | ConsoleInfo string

datatype log_message = Message string | Error string

text \<open>The outcome of the \<^verbatim>\<open>fetch\<close> call: the promise rejects, or resolves to a response
  with a status (which \<^verbatim>\<open>connect\<close> never reads) and a body, which is there (\<open>True\<close>) or
  \<^verbatim>\<open>null\<close> (\<open>False\<close>), as for the statuses 204 and 304.\<close>

datatype fetch_result = FetchRejected | FetchResponse nat bool

text \<open>The outcome of \<^verbatim>\<open>api.refreshResourceVersion\<close>: it rejects, or resolves after it has
  stored a fresh resource version.\<close>

datatype refresh_result = RefreshRejected | Refreshed string

text \<open>An exception caught by the \<^verbatim>\<open>try\<close> of \<^verbatim>\<open>handleStreamEvent\<close>.\<close>

datatype js_error = SyntaxError | TypeError

record ('a, 's) watch_env =
  isProduction :: bool
  isAllowedResource :: "string \<Rightarrow> bool"
  getContextNamespaces :: "string list"
  apiKind :: "'a \<Rightarrow> string"
  apiIsNamespaced :: "'a \<Rightarrow> bool"
  getWatchUrl :: "'a \<Rightarrow> string option \<Rightarrow> string option \<Rightarrow> string"
  getApiByKind :: "string \<Rightarrow> string \<Rightarrow> 'a option"
  getApi :: "string \<Rightarrow> 'a option"
  getStore :: "'a \<Rightarrow> 's option"
  parseApi :: "string option \<Rightarrow> (string \<times> string option) option"
  createSelfLink :: "'a \<Rightarrow> kube_object \<Rightarrow> string"
  jsonParse :: "string \<Rightarrow> watch_event option"
  textDecode :: "string \<Rightarrow> string"

text \<open>
  \<^item> \<open>getWatchUrl env a ns rv\<close> is \<^verbatim>\<open>a.getWatchUrl(ns)\<close>, where \<open>rv\<close> is the resource version
    the object holds for that namespace at the time of the call;
  \<^item> \<open>parseApi\<close> is \<^verbatim>\<open>KubeApi.parseApi\<close>, giving \<^verbatim>\<open>apiBase\<close> and \<^verbatim>\<open>namespace\<close>;
    \<open>None\<close> is a throw, which rejects the promise of \<^verbatim>\<open>onServerStreamEnd\<close> and does
    nothing else;
  \<^item> \<open>jsonParse\<close> is \<^verbatim>\<open>JSON.parse\<close> read at the type of the wire record; \<open>None\<close> is a
    text that does not decode to such a record (\<^verbatim>\<open>JSON.parse\<close> throws);
  \<^item> \<open>textDecode\<close> is \<^verbatim>\<open>new TextDecoder().decode\<close>, from the bytes of a chunk to text.
\<close>

record ('a, 's) watch_state =
  subscribers :: "('a \<times> int) list"
  stream :: "string list option"
  resourceVersions :: "'a \<times> string \<Rightarrow> string option"
  emitted :: "('a, 's) watch_message list"
  console :: "console_line list"
  timers :: "(nat \<times> watch_event) list"
  refreshing :: "('a \<times> string option \<times> watch_event) list"
  requests :: "string list list"

text \<open>
  \<^item> \<open>subscribers\<close> is the \<^verbatim>\<open>observable.map\<close>, as an association list in insertion order
    (the order \<^verbatim>\<open>keys()\<close> iterates in);
  \<^item> \<open>stream\<close> is \<^verbatim>\<open>this.stream\<close>: \<open>None\<close> when unset, else the payload of the request
    whose body it reads;
  \<^item> \<open>resourceVersions\<close> are the cursors the \<^verbatim>\<open>KubeApi\<close> objects hold, by object and
    namespace (\<open>''''\<close> for all namespaces);
  \<^item> \<open>emitted\<close> are the arguments of \<^verbatim>\<open>onMessage.emit\<close>, oldest first;
  \<^item> \<open>timers\<close> are the pending \<^verbatim>\<open>setTimeout\<close> callbacks of \<^verbatim>\<open>onServerStreamEnd\<close>: the
    delay in milliseconds and the event the callback passes on;
  \<^item> \<open>refreshing\<close> are the calls of \<^verbatim>\<open>refreshResourceVersion\<close> that are awaited;
  \<^item> \<open>requests\<close> are the payloads of the \<^verbatim>\<open>fetch\<close> calls made.
\<close>

definition reconnectTimeoutMs :: nat where
  "reconnectTimeoutMs = 5000"

definition maxReconnectsOnError :: nat where
  "maxReconnectsOnError = 10"

definition initialState :: "('a, 's) watch_state" where
  "initialState = \<lparr>subscribers = [], stream = None, resourceVersions = (\<lambda>_. None),
     emitted = [], console = [], timers = [], refreshing = [], requests = []\<rparr>"

subsection \<open>The subscription registry\<close>

definition activeApis :: "('a, 's) watch_state \<Rightarrow> 'a list" where
  "activeApis st = map fst (subscribers st)"

text \<open>\<^verbatim>\<open>this.subscribers.get(api) || 0\<close>: an absent key and a stored \<open>0\<close> both give \<open>0\<close>.\<close>

definition getSubscribersCount :: "('a, 's) watch_state \<Rightarrow> 'a \<Rightarrow> int" where
  "getSubscribersCount st a =
     (case map_of (subscribers st) a of
        None \<Rightarrow> 0
      | Some c \<Rightarrow> if c = 0 then 0 else c)"

text \<open>One round of the first \<^verbatim>\<open>forEach\<close> of \<^verbatim>\<open>subscribe\<close>.\<close>

definition increment :: "'a \<Rightarrow> ('a, 's) watch_state \<Rightarrow> ('a, 's) watch_state" where
  "increment a st =
     st\<lparr>subscribers := AList.update a (getSubscribersCount st a + 1) (subscribers st)\<rparr>"

text \<open>One round of the \<^verbatim>\<open>forEach\<close> inside the function that \<^verbatim>\<open>subscribe\<close> returns.\<close>

definition decrement :: "'a \<Rightarrow> ('a, 's) watch_state \<Rightarrow> ('a, 's) watch_state" where
  "decrement a st =
     (let count = getSubscribersCount st a - 1
      in if count \<le> 0 then st\<lparr>subscribers := AList.delete a (subscribers st)\<rparr>
         else st\<lparr>subscribers := AList.update a count (subscribers st)\<rparr>)"

text \<open>The returned function closes over \<^verbatim>\<open>apis\<close> only; it keeps no flag of having run.\<close>

definition unsubscribe :: "'a list \<Rightarrow> ('a, 's) watch_state \<Rightarrow> ('a, 's) watch_state" where
  "unsubscribe apis st = foldl (\<lambda>s a. decrement a s) st apis"

definition subscribe ::
  "'a list \<Rightarrow> ('a, 's) watch_state \<Rightarrow>
     ('a, 's) watch_state \<times> (('a, 's) watch_state \<Rightarrow> ('a, 's) watch_state)" where
  "subscribe apis st = (foldl (\<lambda>s a. increment a s) st apis, unsubscribe apis)"

subsection \<open>Logging, emitting, resource versions\<close>

text \<open>\<^verbatim>\<open>log\<close> returns at once in a production build.\<close>

definition log :: "('a, 's) watch_env \<Rightarrow> log_message \<Rightarrow> ('a, 's) watch_state \<Rightarrow> ('a, 's) watch_state" where
  "log env message st =
     (if isProduction env then st
      else st\<lparr>console := console st @
             [case message of Error m \<Rightarrow> ConsoleError m | Message m \<Rightarrow> ConsoleInfo m]\<rparr>)"

text \<open>\<^verbatim>\<open>this.onMessage.emit(message)\<close>: the message reaches the attached listeners.\<close>

definition emit :: "('a, 's) watch_message \<Rightarrow> ('a, 's) watch_state \<Rightarrow> ('a, 's) watch_state" where
  "emit message st = st\<lparr>emitted := emitted st @ [message]\<rparr>"

text \<open>
  Modelled from the spec: \<^verbatim>\<open>KubeApi.setResourceVersion\<close> and \<^verbatim>\<open>getResourceVersion\<close> are in
  \<^verbatim>\<open>kube-api.ts\<close>, which is not among the sources. The spec has the tracker as a mapping
  from the resource type and "namespace-or-empty-for-cluster-scope" to a version string, which
  a handler records an observed version in; an absent namespace is the empty key.
\<close>

definition namespaceKey :: "string option \<Rightarrow> string" where
  "namespaceKey ns = (case ns of None \<Rightarrow> [] | Some n \<Rightarrow> n)"

definition setResourceVersion ::
  "'a \<Rightarrow> string option \<Rightarrow> string \<Rightarrow> ('a, 's) watch_state \<Rightarrow> ('a, 's) watch_state" where
  "setResourceVersion a ns newVersion st =
     st\<lparr>resourceVersions := (resourceVersions st)((a, namespaceKey ns) := Some newVersion)\<rparr>"

definition getResourceVersion :: "('a, 's) watch_state \<Rightarrow> 'a \<Rightarrow> string option \<Rightarrow> string option" where
  "getResourceVersion st a ns = resourceVersions st (a, namespaceKey ns)"

text \<open>
  Modelled from the spec: \<^verbatim>\<open>ensureObjectSelfLink\<close> is in \<^verbatim>\<open>kube-api.ts\<close>, which is not among
  the sources. The spec: "normalize the object (ensure a canonical self-link field is
  present)". It writes into the object it is given, so the message carries the result.
\<close>

definition ensureObjectSelfLink :: "('a, 's) watch_env \<Rightarrow> 'a \<Rightarrow> kube_object \<Rightarrow> kube_object" where
  "ensureObjectSelfLink env a obj =
     (case selfLink (metadata obj) of
        Some _ \<Rightarrow> obj
      | None \<Rightarrow> obj\<lparr>metadata := (metadata obj)\<lparr>selfLink := Some (createSelfLink env a obj)\<rparr>\<rparr>)"

subsection \<open>The request payload and the connection\<close>

text \<open>An element of the array that \<^verbatim>\<open>activeApis.map\<close> builds: one URL or an array of URLs.\<close>

datatype watch_urls = Url string | Urls "string list"

text \<open>\<^verbatim>\<open>Array.prototype.flat()\<close>, one level deep.\<close>

definition flat :: "watch_urls list \<Rightarrow> string list" where
  "flat xs = concat (map (\<lambda>x. case x of Url u \<Rightarrow> [u] | Urls us \<Rightarrow> us) xs)"

definition watchUrls :: "('a, 's) watch_env \<Rightarrow> ('a, 's) watch_state \<Rightarrow> 'a \<Rightarrow> watch_urls" where
  "watchUrls env st a =
     (if \<not> isAllowedResource env (apiKind env a) then Urls []
      else if apiIsNamespaced env a then
        Urls (map (\<lambda>ns. getWatchUrl env a (Some ns) (getResourceVersion st a (Some ns)))
                (getContextNamespaces env))
      else Url (getWatchUrl env a None (getResourceVersion st a None)))"

definition getRequestPayload :: "('a, 's) watch_env \<Rightarrow> ('a, 's) watch_state \<Rightarrow> string list" where
  "getRequestPayload env st = flat (map (watchUrls env st) (activeApis st))"

definition disconnect :: "('a, 's) watch_state \<Rightarrow> ('a, 's) watch_state" where
  "disconnect st = (case stream st of None \<Rightarrow> st | Some _ \<Rightarrow> st\<lparr>stream := None\<rparr>)"

text \<open>
  \<^verbatim>\<open>connect\<close>, with the outcome of its \<^verbatim>\<open>fetch\<close> as an argument. The awaits inside it are
  run through without interleaving. A response with a body installs the stream whatever
  its status. A rejection reaches the \<^verbatim>\<open>catch\<close>, and so does a response without a body,
  on which \<^verbatim>\<open>req.body.getReader()\<close> throws; the \<^verbatim>\<open>catch\<close> logs and does nothing else.
\<close>

definition connect ::
  "('a, 's) watch_env \<Rightarrow> fetch_result \<Rightarrow> ('a, 's) watch_state \<Rightarrow> ('a, 's) watch_state" where
  "connect env result st =
     (let st1 = disconnect st;
          payload = getRequestPayload env st1
      in if length payload = 0 then st1
         else
           let st2 = log env (Message ''connecting'') st1;
               st3 = st2\<lparr>requests := requests st2 @ [payload]\<rparr>
           in case result of
                FetchResponse status body \<Rightarrow>
                  if body then st3\<lparr>stream := Some payload\<rparr>
                  else log env (Error ''connection error'') st3
              | FetchRejected \<Rightarrow> log env (Error ''connection error'') st3)"

subsection \<open>The end of a watch on the server\<close>

text \<open>
  \<^verbatim>\<open>onServerStreamEnd\<close> up to its \<^verbatim>\<open>await\<close>: with a handler for the URL, the refresh is
  called and awaited; without one, nothing is done.
\<close>

definition onServerStreamEnd ::
  "('a, 's) watch_env \<Rightarrow> watch_event \<Rightarrow> ('a, 's) watch_state \<Rightarrow> ('a, 's) watch_state" where
  "onServerStreamEnd env event st =
     (case parseApi env (url event) of
        None \<Rightarrow> st
      | Some (apiBase, ns) \<Rightarrow>
          (case getApi env apiBase of
             None \<Rightarrow> st
           | Some a \<Rightarrow> st\<lparr>refreshing := refreshing st @ [(a, ns, event)]\<rparr>))"

text \<open>
  \<^verbatim>\<open>onServerStreamEnd\<close> after its \<^verbatim>\<open>await\<close>. A resolved refresh has stored the version
  (modelled from the spec, as \<open>setResourceVersion\<close> is) and \<^verbatim>\<open>connect\<close> is called; a
  rejected one is logged, and the handler is scheduled again in 1000 ms if the map of
  subscribers is not empty.
\<close>

definition afterRefresh ::
  "('a, 's) watch_env \<Rightarrow> refresh_result \<Rightarrow> fetch_result \<Rightarrow> 'a \<times> string option \<times> watch_event \<Rightarrow>
     ('a, 's) watch_state \<Rightarrow> ('a, 's) watch_state" where
  "afterRefresh env result fetched call st =
     (case call of (a, ns, event) \<Rightarrow>
        (case result of
           Refreshed v \<Rightarrow> connect env fetched (setResourceVersion a ns v st)
         | RefreshRejected \<Rightarrow>
             let st1 = log env (Error ''failed to reconnect on stream end'') st
             in if length (subscribers st1) > 0
                then st1\<lparr>timers := timers st1 @ [(1000, event)]\<rparr>
                else st1))"

text \<open>The oldest awaited refresh settles.\<close>

definition refreshSettled ::
  "('a, 's) watch_env \<Rightarrow> refresh_result \<Rightarrow> fetch_result \<Rightarrow> ('a, 's) watch_state \<Rightarrow> ('a, 's) watch_state" where
  "refreshSettled env result fetched st =
     (case refreshing st of
        [] \<Rightarrow> st
      | call # rest \<Rightarrow> afterRefresh env result fetched call (st\<lparr>refreshing := rest\<rparr>))"

text \<open>The oldest timer fires: its callback is \<^verbatim>\<open>() => this.onServerStreamEnd(event)\<close>.\<close>

definition timerFired :: "('a, 's) watch_env \<Rightarrow> ('a, 's) watch_state \<Rightarrow> ('a, 's) watch_state" where
  "timerFired env st =
     (case timers st of
        [] \<Rightarrow> st
      | (delay, event) # rest \<Rightarrow> onServerStreamEnd env event (st\<lparr>timers := rest\<rparr>))"

text \<open>\<open>n\<close> times in a row: the awaited refresh rejects, then the timer it set fires.\<close>

fun failedRefreshes :: "('a, 's) watch_env \<Rightarrow> nat \<Rightarrow> ('a, 's) watch_state \<Rightarrow> ('a, 's) watch_state" where
  "failedRefreshes env 0 st = st"
| "failedRefreshes env (Suc n) st =
     failedRefreshes env n (timerFired env (refreshSettled env RefreshRejected FetchRejected st))"

subsection \<open>Messages\<close>

text \<open>
  \<^verbatim>\<open>getMessage\<close>. Reading \<^verbatim>\<open>data.object.kind\<close> of a data event without an object throws
  before anything is written. The \<^verbatim>\<open>switch\<close> has no default: any other tag leaves the
  message empty.
\<close>

definition getMessage ::
  "('a, 's) watch_env \<Rightarrow> watch_event \<Rightarrow> ('a, 's) watch_state \<Rightarrow>
     js_error + ('a, 's) watch_message \<times> ('a, 's) watch_state" where
  "getMessage env event st =
     (if type event = ''ADDED'' \<or> type event = ''DELETED'' \<or> type event = ''MODIFIED'' then
        (case object event of
           None \<Rightarrow> Inl TypeError
         | Some obj \<Rightarrow>
             (case getApiByKind env (kind obj) (apiVersion obj) of
                None \<Rightarrow> Inr (emptyMessage\<lparr>data := Some event\<rparr>, st)
              | Some a \<Rightarrow>
                  let obj1 = ensureObjectSelfLink env a obj;
                      ns = namespace (metadata obj1);
                      rv = resourceVersion (metadata obj1);
                      st1 = setResourceVersion a ns rv st;
                      st2 = setResourceVersion a (Some []) rv st1
                  in Inr (\<lparr>data = Some (event\<lparr>object := Some obj1\<rparr>), error = None,
                           api = Some a, store = getStore env a\<rparr>, st2)))
      else if type event = ''ERROR'' then Inr (emptyMessage\<lparr>error := Some event\<rparr>, st)
      else if type event = ''STREAM_END'' then Inr (emptyMessage, onServerStreamEnd env event st)
      else Inr (emptyMessage, st))"

subsection \<open>Chunks of the stream\<close>




text \<open>
  One round of the \<^verbatim>\<open>forEach\<close> of \<^verbatim>\<open>handleStreamEvent\<close>: the \<^verbatim>\<open>try\<close> covers the parse,
  \<^verbatim>\<open>getMessage\<close> and the emit; the \<^verbatim>\<open>catch\<close> logs and the loop goes on.
\<close>

definition handleEvent ::
  "('a, 's) watch_env \<Rightarrow> ('a, 's) watch_state \<Rightarrow> string \<Rightarrow> ('a, 's) watch_state" where
  "handleEvent env st event =
     (case jsonParse env event of
        None \<Rightarrow> log env (Error ''failed to parse watch-api event'') st
      | Some ev \<Rightarrow>
          (case getMessage env ev st of
             Inl e \<Rightarrow> log env (Error ''failed to parse watch-api event'') st
           | Inr (message, st1) \<Rightarrow> emit message st1))"


subsection \<open>Sequences of calls by consumers\<close>

text \<open>
  A consumer calls \<^verbatim>\<open>subscribe\<close> and keeps the function it gets back, here under a
  number \<open>k\<close> of its choosing; later it may call that function. \<open>perform\<close> makes one such
  call on the state and on the functions held so far, \<open>run\<close> makes a sequence of them from
  the state of a new \<^verbatim>\<open>KubeWatchApi\<close>. Calling a function that was never returned is not
  possible in the program; \<open>perform\<close> leaves everything as it is then.
\<close>

datatype 'a call = Subscribe nat "'a list" | Unsubscribe nat

type_synonym ('a, 's) session =
  "('a, 's) watch_state \<times> (nat \<Rightarrow> (('a, 's) watch_state \<Rightarrow> ('a, 's) watch_state) option)"

fun perform :: "('a, 's) session \<Rightarrow> 'a call \<Rightarrow> ('a, 's) session" where
  "perform (st, held) (Subscribe k apis) =
     (fst (subscribe apis st), held(k \<mapsto> snd (subscribe apis st)))"
| "perform (st, held) (Unsubscribe k) =
     (case held k of None \<Rightarrow> (st, held) | Some u \<Rightarrow> (u st, held))"

definition run :: "'a call list \<Rightarrow> ('a, 's) session" where
  "run cs = foldl perform (initialState, Map.empty) cs"

text \<open>The subscriptions made and the functions called, in the order of the calls.\<close>

fun issued :: "'a call list \<Rightarrow> (nat \<times> 'a list) list" where
  "issued [] = []"
| "issued (Subscribe k apis # cs) = (k, apis) # issued cs"
| "issued (Unsubscribe k # cs) = issued cs"

fun invoked :: "'a call list \<Rightarrow> nat list" where
  "invoked [] = []"
| "invoked (Subscribe k apis # cs) = invoked cs"
| "invoked (Unsubscribe k # cs) = k # invoked cs"

text \<open>
  A sequence is well formed when every subscription has a number of its own and every
  returned function is called at most once, after it was returned. \<open>orderly\<close> reads the
  sequence backwards, latest call first.
\<close>

fun orderly :: "'a call list \<Rightarrow> bool" where
  "orderly [] = True"
| "orderly (Subscribe k apis # earlier) = (k \<notin> fst ` set (issued earlier) \<and> orderly earlier)"
| "orderly (Unsubscribe k # earlier) =
     (k \<in> fst ` set (issued earlier) \<and> k \<notin> set (invoked earlier) \<and> orderly earlier)"

definition wellFormed :: "'a call list \<Rightarrow> bool" where
  "wellFormed cs = orderly (rev cs)"

definition apisOf :: "'a call list \<Rightarrow> nat \<Rightarrow> 'a list" where
  "apisOf cs k = (case map_of (issued cs) k of None \<Rightarrow> [] | Some apis \<Rightarrow> apis)"

text \<open>
  The net reference count of a descriptor: its occurrences in the subscriptions made, minus
  its occurrences in the subscriptions whose function was called, once for every call.
\<close>

definition netCount :: "'a call list \<Rightarrow> 'a \<Rightarrow> int" where
  "netCount cs d =
     (\<Sum>(k, apis) \<leftarrow> issued cs. int (count_list apis d)) -
     (\<Sum>k \<leftarrow> invoked cs. int (count_list (apisOf cs k) d))"

text \<open>The occurrences of a descriptor in the subscriptions \<open>al\<close> whose number is not in \<open>ks\<close>.\<close>

definition liveSum :: "nat list \<Rightarrow> (nat \<times> 'a list) list \<Rightarrow> 'a \<Rightarrow> int" where
  "liveSum ks al d = (\<Sum>(k, apis) \<leftarrow> al. if k \<in> set ks then 0 else int (count_list apis d))"

text \<open>The invariant of the map of subscribers: one entry for a key, every stored count positive.\<close>

definition positive :: "('a, 's) watch_state \<Rightarrow> bool" where
  "positive st \<longleftrightarrow>
     distinct (map fst (subscribers st)) \<and> (\<forall>a c. map_of (subscribers st) a = Some c \<longrightarrow> 0 < c)"

subsection \<open>Records of a chunk\<close>






subsection \<open>Concrete collaborators and states\<close>

text \<open>
  Three \<^verbatim>\<open>KubeApi\<close> objects, numbered: \<open>1\<close> for pods (namespaced), \<open>2\<close> for nodes
  (cluster-scoped), \<open>3\<close> for secrets (namespaced, not allowed). The handler registry knows
  pods and nodes. The parser is \<^verbatim>\<open>JSON.parse\<close> on seven lines and rejects every other text,
  among them \<open>badLine\<close>, a record cut short.
\<close>

definition podLine :: string where
  \<open>podLine = ''{"type":"MODIFIED","object":{"kind":"Pod","apiVersion":"v1","metadata":{"namespace":"default","resourceVersion":"105"}}}''\<close>

definition podEvent :: watch_event where
  "podEvent = \<lparr>type = ''MODIFIED'',
     object = Some \<lparr>kind = ''Pod'', apiVersion = ''v1'',
       metadata = \<lparr>namespace = Some ''default'', resourceVersion = ''105'', selfLink = None\<rparr>\<rparr>,
     url = None\<rparr>"

definition crdLine :: string where
  \<open>crdLine = ''{"type":"ADDED","object":{"kind":"Widget","apiVersion":"example.com/v1","metadata":{"resourceVersion":"7"}}}''\<close>

definition crdEvent :: watch_event where
  "crdEvent = \<lparr>type = ''ADDED'',
     object = Some \<lparr>kind = ''Widget'', apiVersion = ''example.com/v1'',
       metadata = \<lparr>namespace = None, resourceVersion = ''7'', selfLink = None\<rparr>\<rparr>,
     url = None\<rparr>"

definition endLine :: string where
  \<open>endLine = ''{"type":"STREAM_END","url":"/api/v1/pods?watch=1"}''\<close>

definition endEvent :: watch_event where
  "endEvent = \<lparr>type = ''STREAM_END'', object = None, url = Some ''/api/v1/pods?watch=1''\<rparr>"

definition strayEndLine :: string where
  \<open>strayEndLine = ''{"type":"STREAM_END","url":"/apis/example.com/v1/widgets?watch=1"}''\<close>

definition strayEndEvent :: watch_event where
  "strayEndEvent = \<lparr>type = ''STREAM_END'', object = None, url = Some ''/apis/example.com/v1/widgets?watch=1''\<rparr>"

definition bookmarkLine :: string where
  \<open>bookmarkLine = ''{"type":"BOOKMARK"}''\<close>

definition bookmarkEvent :: watch_event where
  "bookmarkEvent = \<lparr>type = ''BOOKMARK'', object = None, url = None\<rparr>"

definition badLine :: string where
  \<open>badLine = ''{"type":"ADDED","obj''\<close>

definition bareLine :: string where
  \<open>bareLine = ''{"type":"ADDED"}''\<close>

definition bareEvent :: watch_event where
  "bareEvent = \<lparr>type = ''ADDED'', object = None, url = None\<rparr>"

definition errorLine :: string where
  \<open>errorLine = ''{"type":"ERROR"}''\<close>

definition errorEvent :: watch_event where
  "errorEvent = \<lparr>type = ''ERROR'', object = None, url = None\<rparr>"


definition devEnv :: "(nat, nat) watch_env" where
  "devEnv = \<lparr>
     isProduction = False,
     isAllowedResource = (\<lambda>k. k \<noteq> ''Secret''),
     getContextNamespaces = [''default'', ''kube-system''],
     apiKind = (\<lambda>a. if a = 1 then ''Pod'' else if a = 2 then ''Node'' else ''Secret''),
     apiIsNamespaced = (\<lambda>a. a \<noteq> 2),
     getWatchUrl = (\<lambda>a ns rv.
        (if a = 1 then ''pods'' else if a = 2 then ''nodes'' else ''secrets'') @ ''?ns='' @
        (case ns of None \<Rightarrow> [] | Some n \<Rightarrow> n) @ ''&rv='' @ (case rv of None \<Rightarrow> [] | Some v \<Rightarrow> v)),
     getApiByKind = (\<lambda>k v. if k = ''Pod'' then Some 1 else if k = ''Node'' then Some 2 else None),
     getApi = (\<lambda>b. if b = ''/api/v1/pods'' then Some 1 else if b = ''/api/v1/nodes'' then Some 2 else None),
     getStore = (\<lambda>a. Some (a + 10)),
     parseApi = (\<lambda>u. if u = Some ''/api/v1/pods?watch=1'' then Some (''/api/v1/pods'', None)
                    else if u = Some ''/apis/example.com/v1/widgets?watch=1''
                      then Some (''/apis/example.com/v1/widgets'', None)
                    else None),
     createSelfLink = (\<lambda>a obj. ''/self''),
     jsonParse = (\<lambda>r. if r = podLine then Some podEvent
                     else if r = crdLine then Some crdEvent
                     else if r = endLine then Some endEvent
                     else if r = strayEndLine then Some strayEndEvent
                     else if r = bookmarkLine then Some bookmarkEvent
                     else if r = bareLine then Some bareEvent
                     else if r = errorLine then Some errorEvent
                     else None),
     textDecode = (\<lambda>bytes. bytes)\<rparr>"





text \<open>Two consumers have subscribed to the pods; one consumer has.\<close>

definition sharedState :: "(nat, nat) watch_state" where
  "sharedState = fst (subscribe [1] (fst (subscribe [1] initialState)))"

definition soleState :: "(nat, nat) watch_state" where
  "soleState = fst (subscribe [1] initialState)"

section \<open>The subscription registry\<close>

subsection \<open>Counts\<close>

lemma getSubscribersCount_eq:
  "getSubscribersCount st a = (case map_of (subscribers st) a of None \<Rightarrow> 0 | Some c \<Rightarrow> c)"
  by (simp add: getSubscribersCount_def split: option.splits)


lemma unsubscribe_Cons: "unsubscribe (a # apis) st = unsubscribe apis (decrement a st)"
  by (simp add: unsubscribe_def)

lemma unsubscribe_Nil: "unsubscribe [] st = st"
  by (simp add: unsubscribe_def)











subsection \<open>Sequences of calls\<close>

lemma count_increment:
  "getSubscribersCount (increment a st) d = getSubscribersCount st d + (if d = a then 1 else 0)"
  by (simp add: increment_def getSubscribersCount_eq AList.update_conv' split: option.splits)

lemma count_subscribe:
  "getSubscribersCount (fst (subscribe apis st)) d = getSubscribersCount st d + int (count_list apis d)"
proof -
  have "getSubscribersCount (foldl (\<lambda>s a. increment a s) st apis) d
          = getSubscribersCount st d + int (count_list apis d)"
    by (induction apis arbitrary: st) (simp_all add: count_increment)
  then show ?thesis by (simp add: subscribe_def)
qed

lemma count_decrement:
  "getSubscribersCount (decrement a st) d =
     (if d = a then (if getSubscribersCount st a - 1 \<le> 0 then 0 else getSubscribersCount st a - 1)
      else getSubscribersCount st d)"
  by (simp add: decrement_def Let_def getSubscribersCount_eq AList.update_conv' AList.delete_conv'
      split: option.splits)

lemma count_unsubscribe:
  "\<forall>d. int (count_list apis d) \<le> getSubscribersCount st d \<Longrightarrow>
     getSubscribersCount (unsubscribe apis st) d = getSubscribersCount st d - int (count_list apis d)"
proof (induction apis arbitrary: st)
  case Nil
  then show ?case by (simp add: unsubscribe_Nil)
next
  case (Cons a apis)
  have le: "\<forall>d. int (count_list apis d) \<le> getSubscribersCount (decrement a st) d"
  proof
    fix d
    from Cons.prems have "int (count_list (a # apis) d) \<le> getSubscribersCount st d" by blast
    then show "int (count_list apis d) \<le> getSubscribersCount (decrement a st) d"
      by (auto simp: count_decrement split: if_splits)
  qed
  from Cons.prems have "int (count_list (a # apis) a) \<le> getSubscribersCount st a" by blast
  then have pos: "1 \<le> getSubscribersCount st a" by simp
  show ?case
    using Cons.IH [OF le] pos by (simp add: unsubscribe_Cons count_decrement)
qed

lemma positive_count_nonneg: "positive st \<Longrightarrow> 0 \<le> getSubscribersCount st a"
proof (cases "map_of (subscribers st) a")
  case None
  then show ?thesis by (simp add: getSubscribersCount_eq)
next
  case (Some c)
  assume "positive st"
  with Some have "0 < c" unfolding positive_def by blast
  with Some show ?thesis by (simp add: getSubscribersCount_eq)
qed

lemma positive_increment: "positive st \<Longrightarrow> positive (increment a st)"
  using positive_count_nonneg [of st a]
  by (auto simp: positive_def increment_def AList.update_conv' AList.distinct_update
      simp del: map_of_eq_Some_iff split: if_splits)

lemma positive_decrement: "positive st \<Longrightarrow> positive (decrement a st)"
  by (auto simp: positive_def decrement_def Let_def AList.update_conv' AList.delete_conv'
      AList.distinct_update AList.distinct_delete simp del: map_of_eq_Some_iff split: if_splits)

lemma positive_subscribe: "positive st \<Longrightarrow> positive (fst (subscribe apis st))"
proof -
  have "positive st \<Longrightarrow> positive (foldl (\<lambda>s a. increment a s) st apis)"
    by (induction apis arbitrary: st) (simp_all add: positive_increment)
  then show "positive st \<Longrightarrow> positive (fst (subscribe apis st))" by (simp add: subscribe_def)
qed

lemma positive_unsubscribe: "positive st \<Longrightarrow> positive (unsubscribe apis st)"
  by (induction apis arbitrary: st) (simp_all add: unsubscribe_Nil unsubscribe_Cons positive_decrement)

lemma positive_initialState: "positive initialState"
  by (simp add: positive_def initialState_def)

lemma positive_active:
  assumes "positive st"
  shows "set (activeApis st) = {d. 0 < getSubscribersCount st d}"
proof -
  have "d \<in> set (activeApis st) \<longleftrightarrow> 0 < getSubscribersCount st d" for d
  proof (cases "map_of (subscribers st) d")
    case None
    then show ?thesis by (simp add: activeApis_def getSubscribersCount_eq map_of_eq_None_iff [symmetric])
  next
    case (Some c)
    with assms have "0 < c" by (simp add: positive_def)
    moreover from Some have "d \<in> fst ` set (subscribers st)"
      by (metis map_of_eq_None_iff option.distinct(1))
    ultimately show ?thesis using Some by (simp add: activeApis_def getSubscribersCount_eq)
  qed
  then show ?thesis by blast
qed

lemma positive_stored:
  "positive st \<Longrightarrow> (a, c) \<in> set (subscribers st) \<Longrightarrow> 0 < c"
  by (simp add: positive_def)

lemma issued_append: "issued (xs @ ys) = issued xs @ issued ys"
  by (induction xs rule: issued.induct) simp_all

lemma invoked_append: "invoked (xs @ ys) = invoked xs @ invoked ys"
  by (induction xs rule: invoked.induct) simp_all

lemma issued_rev: "set (issued (rev cs)) = set (issued cs)"
  by (induction cs rule: issued.induct) (auto simp: issued_append)

lemma invoked_rev: "set (invoked (rev cs)) = set (invoked cs)"
  by (induction cs rule: invoked.induct) (auto simp: invoked_append)

lemma wellFormed_Nil: "wellFormed []"
  by (simp add: wellFormed_def)

lemma wellFormed_snoc_Subscribe:
  "wellFormed (cs @ [Subscribe k apis]) \<longleftrightarrow> k \<notin> fst ` set (issued cs) \<and> wellFormed cs"
  by (simp add: wellFormed_def issued_rev)

lemma wellFormed_snoc_Unsubscribe:
  "wellFormed (cs @ [Unsubscribe k]) \<longleftrightarrow>
     k \<in> fst ` set (issued cs) \<and> k \<notin> set (invoked cs) \<and> wellFormed cs"
  by (simp add: wellFormed_def issued_rev invoked_rev)

lemma wellFormed_facts:
  "wellFormed cs \<Longrightarrow>
     distinct (map fst (issued cs)) \<and> distinct (invoked cs) \<and> set (invoked cs) \<subseteq> fst ` set (issued cs)"
proof (induction cs rule: rev_induct)
  case Nil
  then show ?case by simp
next
  case (snoc c cs)
  then show ?case
    by (cases c) (auto simp: wellFormed_snoc_Subscribe wellFormed_snoc_Unsubscribe issued_append invoked_append)
qed

lemma run_snoc: "run (cs @ [c]) = perform (run cs) c"
  by (simp add: run_def)

lemma held_run:
  "snd (run cs :: ('a, 's) session) k = Some u \<Longrightarrow> \<exists>apis. u = unsubscribe apis \<and> (k, apis) \<in> set (issued cs)"
proof (induction cs arbitrary: u rule: rev_induct)
  case Nil
  then show ?case by (simp add: run_def)
next
  case (snoc c cs)
  obtain st held where r: "(run cs :: ('a, 's) session) = (st, held)" by (cases "run cs :: ('a, 's) session")
  show ?case
  proof (cases c)
    case (Subscribe k' apis)
    with r snoc show ?thesis
      by (auto simp: run_snoc issued_append subscribe_def split: if_splits)
  next
    case (Unsubscribe k')
    with r snoc show ?thesis
      by (cases "held k'") (auto simp: run_snoc issued_append)
  qed
qed

lemma positive_run: "positive (fst (run cs :: ('a, 's) session))"
proof (induction cs rule: rev_induct)
  case Nil
  then show ?case by (simp add: run_def positive_initialState)
next
  case (snoc c cs)
  obtain st held where r: "(run cs :: ('a, 's) session) = (st, held)" by (cases "run cs :: ('a, 's) session")
  with snoc have p: "positive st" by simp
  show ?case
  proof (cases c)
    case (Subscribe k apis)
    with r p positive_subscribe [of st apis] show ?thesis
      by (simp add: run_snoc)
  next
    case (Unsubscribe k)
    show ?thesis
    proof (cases "held k")
      case None
      with r p Unsubscribe show ?thesis by (simp add: run_snoc)
    next
      case (Some u)
      with r held_run [of cs k u] obtain apis where "u = unsubscribe apis" by auto
      with r p Unsubscribe Some positive_unsubscribe [of st apis] show ?thesis by (simp add: run_snoc)
    qed
  qed
qed


lemma liveSum_Nil: "liveSum ks [] d = 0"
  by (simp add: liveSum_def)

lemma liveSum_Cons:
  "liveSum ks ((k, apis) # al) d = (if k \<in> set ks then 0 else int (count_list apis d)) + liveSum ks al d"
  by (simp add: liveSum_def)

lemma liveSum_append:
  "liveSum ks (al @ [(k, apis)]) d = liveSum ks al d + (if k \<in> set ks then 0 else int (count_list apis d))"
  by (simp add: liveSum_def)

lemma liveSum_nonneg: "0 \<le> liveSum ks al d"
  by (induction al) (auto simp: liveSum_Nil liveSum_Cons)

lemma liveSum_invoke_absent:
  "k \<notin> fst ` set al \<Longrightarrow> liveSum (ks @ [k]) al d = liveSum ks al d"
  by (induction al) (auto simp: liveSum_Nil liveSum_Cons)

lemma liveSum_invoke:
  "k \<notin> set ks \<Longrightarrow> distinct (map fst al) \<Longrightarrow> map_of al k = Some apis \<Longrightarrow>
     liveSum (ks @ [k]) al d = liveSum ks al d - int (count_list apis d)"
proof (induction al)
  case Nil
  then show ?case by simp
next
  case (Cons p al)
  obtain k' apis' where p: "p = (k', apis')" by (cases p)
  show ?case
  proof (cases "k' = k")
    case True
    with Cons.prems p have "apis' = apis" "k \<notin> fst ` set al" by auto
    with True p Cons.prems(1) show ?thesis
      by (simp add: liveSum_Cons liveSum_invoke_absent)
  next
    case False
    with Cons p show ?thesis by (simp add: liveSum_Cons)
  qed
qed

lemma liveSum_net:
  "distinct (map fst al) \<Longrightarrow> distinct ks \<Longrightarrow> set ks \<subseteq> fst ` set al \<Longrightarrow>
     liveSum ks al d =
       (\<Sum>(k, apis) \<leftarrow> al. int (count_list apis d)) -
       (\<Sum>k \<leftarrow> ks. int (count_list (case map_of al k of None \<Rightarrow> [] | Some apis \<Rightarrow> apis) d))"
proof (induction ks rule: rev_induct)
  case Nil
  then show ?case by (simp add: liveSum_def)
next
  case (snoc k ks)
  then have "k \<in> fst ` set al" "k \<notin> set ks" by auto
  then obtain apis where apis: "map_of al k = Some apis"
    by (cases "map_of al k") (auto simp: map_of_eq_None_iff)
  from snoc have "liveSum ks al d =
       (\<Sum>(k, apis) \<leftarrow> al. int (count_list apis d)) -
       (\<Sum>k \<leftarrow> ks. int (count_list (case map_of al k of None \<Rightarrow> [] | Some apis \<Rightarrow> apis) d))"
    by simp
  with liveSum_invoke [OF \<open>k \<notin> set ks\<close> snoc.prems(1) apis, of d] apis show ?case
    by simp
qed

lemma run_wellFormed:
  "wellFormed cs \<Longrightarrow>
     (\<forall>d. getSubscribersCount (fst (run cs :: ('a, 's) session)) d = liveSum (invoked cs) (issued cs) d) \<and>
     (\<forall>k. snd (run cs :: ('a, 's) session) k = map_option unsubscribe (map_of (issued cs) k))"
proof (induction cs rule: rev_induct)
  case Nil
  then show ?case
    by (simp add: run_def initialState_def getSubscribersCount_eq liveSum_Nil)
next
  case (snoc c cs)
  obtain st held where r: "(run cs :: ('a, 's) session) = (st, held)" by (cases "run cs :: ('a, 's) session")
  show ?case
  proof (cases c)
    case (Subscribe k apis)
    with snoc.prems have fresh: "k \<notin> fst ` set (issued cs)" and wf: "wellFormed cs"
      by (simp_all add: wellFormed_snoc_Subscribe)
    from wellFormed_facts [OF wf] fresh have ninv: "k \<notin> set (invoked cs)" by blast
    from fresh have none: "map_of (issued cs) k = None" by (simp add: map_of_eq_None_iff)
    from snoc.IH [OF wf] r
    have cnt: "\<And>d. getSubscribersCount st d = liveSum (invoked cs) (issued cs) d"
      and held: "\<And>k. held k = map_option unsubscribe (map_of (issued cs) k)" by simp_all
    have "getSubscribersCount (fst (run (cs @ [c]) :: ('a, 's) session)) d =
            liveSum (invoked (cs @ [c])) (issued (cs @ [c])) d" for d
      using Subscribe r cnt [of d] ninv
      by (simp add: run_snoc count_subscribe issued_append invoked_append liveSum_append)
    moreover have "snd (run (cs @ [c]) :: ('a, 's) session) k' =
            map_option unsubscribe (map_of (issued (cs @ [c])) k')" for k'
      using Subscribe r held [of k'] none
      by (auto simp: run_snoc issued_append subscribe_def map_add_def split: option.splits)
    ultimately show ?thesis by blast
  next
    case (Unsubscribe k)
    with snoc.prems have iss: "k \<in> fst ` set (issued cs)" and ninv: "k \<notin> set (invoked cs)"
      and wf: "wellFormed cs"
      by (simp_all add: wellFormed_snoc_Unsubscribe)
    from iss obtain apis where apis: "map_of (issued cs) k = Some apis"
      by (cases "map_of (issued cs) k") (auto simp: map_of_eq_None_iff)
    from snoc.IH [OF wf] r
    have cnt: "\<And>d. getSubscribersCount st d = liveSum (invoked cs) (issued cs) d"
      and held: "\<And>k. held k = map_option unsubscribe (map_of (issued cs) k)" by simp_all
    from wellFormed_facts [OF wf] have dist: "distinct (map fst (issued cs))" by simp
    have step: "liveSum (invoked cs @ [k]) (issued cs) d =
                  liveSum (invoked cs) (issued cs) d - int (count_list apis d)" for d
      by (rule liveSum_invoke [OF ninv dist apis])
    have le: "\<forall>d. int (count_list apis d) \<le> getSubscribersCount st d"
    proof
      fix d
      from step [of d] liveSum_nonneg [of "invoked cs @ [k]" "issued cs" d] cnt [of d]
      show "int (count_list apis d) \<le> getSubscribersCount st d" by simp
    qed
    from held [of k] apis have hk: "held k = Some (unsubscribe apis)" by simp
    have "getSubscribersCount (fst (run (cs @ [c]) :: ('a, 's) session)) d =
            liveSum (invoked (cs @ [c])) (issued (cs @ [c])) d" for d
      using Unsubscribe r hk count_unsubscribe [OF le, of d] cnt [of d] step [of d]
      by (simp add: run_snoc issued_append invoked_append)
    moreover have "snd (run (cs @ [c]) :: ('a, 's) session) k' =
            map_option unsubscribe (map_of (issued (cs @ [c])) k')" for k'
      using Unsubscribe r hk held [of k']
      by (simp add: run_snoc issued_append)
    ultimately show ?thesis by blast
  qed
qed

lemma count_run:
  assumes "wellFormed cs"
  shows "getSubscribersCount (fst (run cs :: ('a, 's) session)) d = netCount cs d"
proof -
  from wellFormed_facts [OF assms]
  have "liveSum (invoked cs) (issued cs) d = netCount cs d"
    unfolding netCount_def apisOf_def by (intro liveSum_net) simp_all
  moreover have "getSubscribersCount (fst (run cs :: ('a, 's) session)) d = liveSum (invoked cs) (issued cs) d"
    using run_wellFormed [OF assms] by blast
  ultimately show ?thesis by simp
qed

lemma issued_filter:
  "issued cs = map (\<lambda>c. case c of Subscribe k apis \<Rightarrow> (k, apis) | Unsubscribe k \<Rightarrow> (k, []))
                 (filter (\<lambda>c. case c of Subscribe k apis \<Rightarrow> True | Unsubscribe k \<Rightarrow> False) cs)"
  by (induction cs rule: issued.induct) simp_all

lemma invoked_filter:
  "invoked cs = map (\<lambda>c. case c of Subscribe k apis \<Rightarrow> k | Unsubscribe k \<Rightarrow> k)
                 (filter (\<lambda>c. case c of Subscribe k apis \<Rightarrow> False | Unsubscribe k \<Rightarrow> True) cs)"
  by (induction cs rule: invoked.induct) simp_all

lemma mset_issued: "mset cs = mset cs' \<Longrightarrow> mset (issued cs) = mset (issued cs')"
  by (simp add: issued_filter)

lemma mset_invoked: "mset cs = mset cs' \<Longrightarrow> mset (invoked cs) = mset (invoked cs')"
  by (simp add: invoked_filter)

lemma sum_list_mset_cong:
  fixes f :: "'b \<Rightarrow> int"
  shows "mset xs = mset ys \<Longrightarrow> sum_list (map f xs) = sum_list (map f ys)"
  by (metis mset_map sum_mset_sum_list)

lemma netCount_reorder:
  assumes "wellFormed cs" "wellFormed cs'" "mset cs = mset cs'"
  shows "netCount cs d = netCount cs' d"
proof -
  from assms(3) have i: "mset (issued cs) = mset (issued cs')" and v: "mset (invoked cs) = mset (invoked cs')"
    by (rule mset_issued, rule mset_invoked)
  from i have "set (issued cs) = set (issued cs')" by (rule mset_eq_setD)
  with wellFormed_facts [OF assms(1)] wellFormed_facts [OF assms(2)]
  have "map_of (issued cs) = map_of (issued cs')" by (simp add: map_of_inject_set)
  then have "apisOf cs = apisOf cs'" by (simp add: apisOf_def fun_eq_iff)
  with sum_list_mset_cong [OF i] sum_list_mset_cong [OF v] show ?thesis
    by (simp add: netCount_def)
qed


lemma decrement_removes:
  assumes "positive st" "a \<in> set (activeApis st)"
  shows "a \<notin> set (activeApis (decrement a st)) \<longleftrightarrow> getSubscribersCount st a - 1 = 0"
proof -
  from assms have "0 < getSubscribersCount st a" by (simp add: positive_active)
  then show ?thesis
    by (auto simp: decrement_def Let_def activeApis_def AList.dom_update AList.delete_notin_dom)
qed

text \<open>
  C6 (as amended). For every sequence of subscribe calls and calls of the returned functions
  in which each returned function is called at most once, the set of \<^verbatim>\<open>activeApis\<close> is the set
  of descriptors with a positive net reference count, and another order of the same calls
  (in which again no function is called before it was returned) gives the same set. For
  every sequence whatever, a stored count is positive, never zero or less, and a decrement
  removes an entry exactly when it brings the count to 0.
\<close>

theorem active_net:
  "(wellFormed cs \<longrightarrow>
      set (activeApis (fst (run cs :: ('a, 's) session))) = {d. 0 < netCount cs d})
   \<and> (wellFormed cs \<and> wellFormed cs' \<and> mset cs = mset cs' \<longrightarrow>
        set (activeApis (fst (run cs' :: ('a, 's) session))) =
          set (activeApis (fst (run cs :: ('a, 's) session))))
   \<and> (\<forall>(a, c)\<in>set (subscribers (fst (run cs :: ('a, 's) session))). 0 < c)
   \<and> (\<forall>a\<in>set (activeApis (fst (run cs :: ('a, 's) session))).
         a \<notin> set (activeApis (decrement a (fst (run cs :: ('a, 's) session)))) \<longleftrightarrow>
         getSubscribersCount (fst (run cs :: ('a, 's) session)) a - 1 = 0)"
proof -
  have a: "set (activeApis (fst (run xs :: ('a, 's) session))) = {d. 0 < netCount xs d}"
    if "wellFormed xs" for xs :: "'a call list"
  proof -
    have p: "positive (fst (run xs :: ('a, 's) session))" by (rule positive_run)
    have c: "getSubscribersCount (fst (run xs :: ('a, 's) session)) d = netCount xs d" for d
      by (rule count_run [OF that])
    from positive_active [OF p] c show ?thesis by simp
  qed
  have p: "positive (fst (run cs :: ('a, 's) session))" by (rule positive_run)
  have "set (activeApis (fst (run cs' :: ('a, 's) session))) =
          set (activeApis (fst (run cs :: ('a, 's) session)))"
    if w: "wellFormed cs" "wellFormed cs'" "mset cs = mset cs'"
  proof -
    have "{d. 0 < netCount cs' d} = {d. 0 < netCount cs d}"
      using netCount_reorder [OF w] by simp
    with a [OF w(1)] a [OF w(2)] show ?thesis by simp
  qed
  moreover have "\<forall>(a, c)\<in>set (subscribers (fst (run cs :: ('a, 's) session))). 0 < c"
    using p by (auto dest: positive_stored)
  moreover have "\<forall>a\<in>set (activeApis (fst (run cs :: ('a, 's) session))).
               a \<notin> set (activeApis (decrement a (fst (run cs :: ('a, 's) session)))) \<longleftrightarrow>
               getSubscribersCount (fst (run cs :: ('a, 's) session)) a - 1 = 0"
    using decrement_removes [OF p] by blast
  ultimately show ?thesis using a [of cs] by blast
qed

theorem active_net_witness:
  "wellFormed [Subscribe 0 [1, 2], Subscribe 1 [1::nat], Unsubscribe 0] \<and>
   wellFormed [Subscribe 1 [1], Subscribe 0 [1, 2::nat], Unsubscribe 0] \<and>
   mset [Subscribe 0 [1, 2], Subscribe 1 [1::nat], Unsubscribe 0] =
     mset [Subscribe 1 [1], Subscribe 0 [1, 2::nat], Unsubscribe 0] \<and>
   set (activeApis (fst (run [Subscribe 0 [1, 2], Subscribe 1 [1::nat], Unsubscribe 0] :: (nat, nat) session))) =
     {d. 0 < netCount [Subscribe 0 [1, 2], Subscribe 1 [1::nat], Unsubscribe 0] d} \<and>
   set (activeApis (fst (run [Subscribe 1 [1], Subscribe 0 [1, 2::nat], Unsubscribe 0] :: (nat, nat) session))) =
     set (activeApis (fst (run [Subscribe 0 [1, 2], Subscribe 1 [1::nat], Unsubscribe 0] :: (nat, nat) session)))"
proof -
  have w1: "wellFormed [Subscribe 0 [1, 2], Subscribe 1 [1::nat], Unsubscribe 0]"
    by (simp add: wellFormed_def)
  have w2: "wellFormed [Subscribe 1 [1], Subscribe 0 [1, 2::nat], Unsubscribe 0]"
    by (simp add: wellFormed_def)
  have m: "mset [Subscribe 0 [1, 2], Subscribe 1 [1::nat], Unsubscribe 0] =
     mset [Subscribe 1 [1], Subscribe 0 [1, 2::nat], Unsubscribe 0]"
    by simp
  from active_net [of "[Subscribe 0 [1, 2], Subscribe 1 [1::nat], Unsubscribe 0]"
      "[Subscribe 1 [1], Subscribe 0 [1, 2::nat], Unsubscribe 0]", where ?'s = nat] w1 w2 m
  show ?thesis by blast
qed

text \<open>
  C6 as stated fails once a returned function is called twice. The same four calls in two
  orders, the function of subscription 0 called twice in both: in the first order no
  descriptor is active at the end, in the second the pods are, although their net
  reference count is 0.
\<close>

theorem active_net_counterexample:
  "set (activeApis (fst (run [Subscribe 0 [1], Subscribe 1 [1], Unsubscribe 0, Unsubscribe 0] :: (nat, nat) session))) \<noteq>
   set (activeApis (fst (run [Subscribe 0 [1], Unsubscribe 0, Unsubscribe 0, Subscribe 1 [1]] :: (nat, nat) session))) \<and>
   mset [Subscribe 0 [1], Subscribe 1 [1], Unsubscribe 0, Unsubscribe 0] =
     mset [Subscribe 0 [1::nat], Unsubscribe 0, Unsubscribe 0, Subscribe 1 [1]] \<and>
   1 \<in> set (activeApis (fst (run [Subscribe 0 [1], Unsubscribe 0, Unsubscribe 0, Subscribe 1 [1]] :: (nat, nat) session))) \<and>
   netCount [Subscribe 0 [1::nat], Unsubscribe 0, Unsubscribe 0, Subscribe 1 [1]] 1 = 0"
  by (simp add: run_def subscribe_def unsubscribe_def increment_def decrement_def
      getSubscribersCount_def initialState_def activeApis_def netCount_def apisOf_def)

section \<open>Messages\<close>

lemma jsonParse_devEnv:
  "jsonParse devEnv podLine = Some podEvent"
  "jsonParse devEnv crdLine = Some crdEvent"
  "jsonParse devEnv endLine = Some endEvent"
  "jsonParse devEnv strayEndLine = Some strayEndEvent"
  "jsonParse devEnv bookmarkLine = Some bookmarkEvent"
  "jsonParse devEnv badLine = None"
  "jsonParse devEnv bareLine = Some bareEvent"
  "jsonParse devEnv errorLine = Some errorEvent"
  by (simp_all add: devEnv_def podLine_def crdLine_def endLine_def strayEndLine_def
      bookmarkLine_def badLine_def bareLine_def errorLine_def)

lemma emitted_log: "emitted (log env m st) = emitted st"
  by (simp add: log_def)

lemma emitted_onServerStreamEnd: "emitted (onServerStreamEnd env event st) = emitted st"
  by (simp add: onServerStreamEnd_def split: option.splits prod.splits)




lemma resourceVersion_ensureObjectSelfLink:
  "resourceVersion (metadata (ensureObjectSelfLink env a obj)) = resourceVersion (metadata obj)"
  "namespace (metadata (ensureObjectSelfLink env a obj)) = namespace (metadata obj)"
  by (simp_all add: ensureObjectSelfLink_def split: option.splits)

text \<open>
  C3. After \<^verbatim>\<open>getMessage\<close> has processed a data event (ADDED, MODIFIED or DELETED) whose
  object has a registered handler, the handler's resource version for the namespace of the
  object and its resource version for all namespaces (the empty key) are both the
  \<^verbatim>\<open>resourceVersion\<close> of the object; they still are when the line that carried the event has
  gone through the loop of \<^verbatim>\<open>handleStreamEvent\<close>.
\<close>

theorem getMessage_cursors:
  assumes "type event = ''ADDED'' \<or> type event = ''MODIFIED'' \<or> type event = ''DELETED''"
    and "object event = Some obj"
    and "getApiByKind env (kind obj) (apiVersion obj) = Some a"
    and "jsonParse env r = Some event"
  shows "(\<exists>message st1. getMessage env event st = Inr (message, st1) \<and>
           getResourceVersion st1 a (namespace (metadata obj)) = Some (resourceVersion (metadata obj)) \<and>
           getResourceVersion st1 a (Some []) = Some (resourceVersion (metadata obj))) \<and>
         getResourceVersion (handleEvent env st r) a (namespace (metadata obj)) =
           Some (resourceVersion (metadata obj)) \<and>
         getResourceVersion (handleEvent env st r) a (Some []) = Some (resourceVersion (metadata obj))"
  using assms
  by (auto simp: getMessage_def handleEvent_def emit_def Let_def getResourceVersion_def
      setResourceVersion_def resourceVersion_ensureObjectSelfLink namespaceKey_def)

text \<open>The example of the claim: a MODIFIED event for a pod in namespace default, version 105.\<close>

theorem getMessage_cursors_witness:
  "type podEvent = ''MODIFIED'' \<and> getApiByKind devEnv ''Pod'' ''v1'' = Some 1 \<and>
   jsonParse devEnv podLine = Some podEvent \<and>
   (\<exists>message st1. getMessage devEnv podEvent initialState = Inr (message, st1) \<and>
      getResourceVersion st1 1 (Some ''default'') = Some ''105'' \<and>
      getResourceVersion st1 1 (Some []) = Some ''105'') \<and>
   getResourceVersion (handleEvent devEnv initialState podLine) 1 (Some ''default'') = Some ''105'' \<and>
   getResourceVersion (handleEvent devEnv initialState podLine) 1 (Some []) = Some ''105''"
proof -
  have t: "type podEvent = ''ADDED'' \<or> type podEvent = ''MODIFIED'' \<or> type podEvent = ''DELETED''"
    by (simp add: podEvent_def)
  have ob: "object podEvent = Some \<lparr>kind = ''Pod'', apiVersion = ''v1'',
       metadata = \<lparr>namespace = Some ''default'', resourceVersion = ''105'', selfLink = None\<rparr>\<rparr>"
    by (simp add: podEvent_def)
  have g: "getApiByKind devEnv ''Pod'' ''v1'' = Some 1"
    by (simp add: devEnv_def)
  then have h: "getApiByKind devEnv (kind \<lparr>kind = ''Pod'', apiVersion = ''v1'',
       metadata = \<lparr>namespace = Some ''default'', resourceVersion = ''105'', selfLink = None\<rparr>\<rparr>)
       (apiVersion \<lparr>kind = ''Pod'', apiVersion = ''v1'',
       metadata = \<lparr>namespace = Some ''default'', resourceVersion = ''105'', selfLink = None\<rparr>\<rparr>) = Some 1"
    by simp
  have m: "type podEvent = ''MODIFIED''" by (simp add: podEvent_def)
  note j = jsonParse_devEnv(1)
  from getMessage_cursors [OF t ob h j, of initialState] j g m show ?thesis
    by simp
qed

text \<open>
  C7. For a data event (ADDED, MODIFIED or DELETED) whose kind and apiVersion have no
  registered handler, \<^verbatim>\<open>getMessage\<close> returns a message that carries the event as it came and
  neither handler nor store, the state is untouched, and the loop of \<^verbatim>\<open>handleStreamEvent\<close>
  emits that message: the event is not dropped.
\<close>

theorem getMessage_unhandled:
  assumes "type event = ''ADDED'' \<or> type event = ''MODIFIED'' \<or> type event = ''DELETED''"
    and "object event = Some obj"
    and "getApiByKind env (kind obj) (apiVersion obj) = None"
    and "jsonParse env r = Some event"
  shows "getMessage env event st =
           Inr (\<lparr>data = Some event, error = None, api = None, store = None\<rparr>, st) \<and>
         emitted (handleEvent env st r) =
           emitted st @ [\<lparr>data = Some event, error = None, api = None, store = None\<rparr>]"
  using assms
  by (auto simp: getMessage_def handleEvent_def emit_def emptyMessage_def)

theorem getMessage_unhandled_witness:
  "type crdEvent = ''ADDED'' \<and> getApiByKind devEnv ''Widget'' ''example.com/v1'' = None \<and>
   jsonParse devEnv crdLine = Some crdEvent \<and>
   getMessage devEnv crdEvent soleState =
     Inr (\<lparr>data = Some crdEvent, error = None, api = None, store = None\<rparr>, soleState) \<and>
   emitted (handleEvent devEnv soleState crdLine) =
     emitted soleState @ [\<lparr>data = Some crdEvent, error = None, api = None, store = None\<rparr>]"
proof -
  have t: "type crdEvent = ''ADDED'' \<or> type crdEvent = ''MODIFIED'' \<or> type crdEvent = ''DELETED''"
    by (simp add: crdEvent_def)
  have ob: "object crdEvent = Some \<lparr>kind = ''Widget'', apiVersion = ''example.com/v1'',
       metadata = \<lparr>namespace = None, resourceVersion = ''7'', selfLink = None\<rparr>\<rparr>"
    by (simp add: crdEvent_def)
  have g: "getApiByKind devEnv ''Widget'' ''example.com/v1'' = None"
    by (simp add: devEnv_def)
  then have h: "getApiByKind devEnv (kind \<lparr>kind = ''Widget'', apiVersion = ''example.com/v1'',
       metadata = \<lparr>namespace = None, resourceVersion = ''7'', selfLink = None\<rparr>\<rparr>)
       (apiVersion \<lparr>kind = ''Widget'', apiVersion = ''example.com/v1'',
       metadata = \<lparr>namespace = None, resourceVersion = ''7'', selfLink = None\<rparr>\<rparr>) = None"
    by simp
  have m: "type crdEvent = ''ADDED''" by (simp add: crdEvent_def)
  note j = jsonParse_devEnv(2)
  from getMessage_unhandled [OF t ob h j, of soleState] j g m show ?thesis
    by simp
qed

text \<open>
  C9. For a decoded record whose tag is STREAM_END, or none of ADDED, MODIFIED, DELETED, ERROR
  and STREAM_END, \<^verbatim>\<open>getMessage\<close> returns the empty message (no data, no error, no handler, no
  store), and the loop of \<^verbatim>\<open>handleStreamEvent\<close> emits it like any other.
\<close>

theorem getMessage_empty:
  assumes "type event = ''STREAM_END'' \<or>
           type event \<notin> {''ADDED'', ''MODIFIED'', ''DELETED'', ''ERROR'', ''STREAM_END''}"
    and "jsonParse env r = Some event"
  shows "(\<exists>st1. getMessage env event st = Inr (emptyMessage, st1)) \<and>
         emitted (handleEvent env st r) = emitted st @ [emptyMessage]"
  using assms
  by (auto simp: getMessage_def handleEvent_def emit_def emitted_onServerStreamEnd)

theorem getMessage_empty_witness:
  "type endEvent = ''STREAM_END'' \<and> jsonParse devEnv endLine = Some endEvent \<and>
   (\<exists>st1. getMessage devEnv endEvent soleState = Inr (emptyMessage, st1)) \<and>
   emitted (handleEvent devEnv soleState endLine) = emitted soleState @ [emptyMessage] \<and>
   type bookmarkEvent \<notin> {''ADDED'', ''MODIFIED'', ''DELETED'', ''ERROR'', ''STREAM_END''} \<and>
   jsonParse devEnv bookmarkLine = Some bookmarkEvent \<and>
   emitted (handleEvent devEnv soleState bookmarkLine) = emitted soleState @ [emptyMessage]"
proof -
  have m1: "type endEvent = ''STREAM_END''" by (simp add: endEvent_def)
  then have t1: "type endEvent = ''STREAM_END'' \<or>
      type endEvent \<notin> {''ADDED'', ''MODIFIED'', ''DELETED'', ''ERROR'', ''STREAM_END''}"
    by simp
  note j1 = jsonParse_devEnv(3)
  have m2: "type bookmarkEvent \<notin> {''ADDED'', ''MODIFIED'', ''DELETED'', ''ERROR'', ''STREAM_END''}"
    by (simp add: bookmarkEvent_def)
  then have t2: "type bookmarkEvent = ''STREAM_END'' \<or>
      type bookmarkEvent \<notin> {''ADDED'', ''MODIFIED'', ''DELETED'', ''ERROR'', ''STREAM_END''}"
    by simp
  note j2 = jsonParse_devEnv(5)
  from getMessage_empty [OF t1 j1, of soleState] getMessage_empty [OF t2 j2, of soleState] j1 j2 m1 m2
  show ?thesis by blast
qed

section \<open>The end of a watch on the server\<close>







lemma timers_afterRefresh_rejected:
  "subscribers st \<noteq> [] \<Longrightarrow>
     timers (afterRefresh env RefreshRejected fetched (a, ns, event) st) = timers st @ [(1000, event)]"
  by (simp add: afterRefresh_def log_def Let_def)

lemma retry_round:
  assumes "parseApi env (url event) = Some (apiBase, ns)" "getApi env apiBase = Some a"
    and "refreshing s = [(a, ns, event)]" "timers s = []" "subscribers s \<noteq> []"
  shows "refreshing (timerFired env (refreshSettled env RefreshRejected FetchRejected s)) = [(a, ns, event)] \<and>
         timers (timerFired env (refreshSettled env RefreshRejected FetchRejected s)) = [] \<and>
         subscribers (timerFired env (refreshSettled env RefreshRejected FetchRejected s)) = subscribers s"
  using assms
  by (simp add: timerFired_def refreshSettled_def afterRefresh_def log_def Let_def onServerStreamEnd_def)

lemma retry_rounds:
  assumes "parseApi env (url event) = Some (apiBase, ns)" "getApi env apiBase = Some a"
  shows "refreshing s = [(a, ns, event)] \<Longrightarrow> timers s = [] \<Longrightarrow> subscribers s \<noteq> [] \<Longrightarrow>
    refreshing (failedRefreshes env n s) = [(a, ns, event)] \<and> timers (failedRefreshes env n s) = [] \<and>
    subscribers (failedRefreshes env n s) = subscribers s"
proof (induction n arbitrary: s)
  case 0
  then show ?case by simp
next
  case (Suc n)
  from retry_round [OF assms Suc.prems]
  have r: "refreshing (timerFired env (refreshSettled env RefreshRejected FetchRejected s)) = [(a, ns, event)]"
    and t: "timers (timerFired env (refreshSettled env RefreshRejected FetchRejected s)) = []"
    and u: "subscribers (timerFired env (refreshSettled env RefreshRejected FetchRejected s)) = subscribers s"
    by simp_all
  from u Suc.prems(3)
  have "subscribers (timerFired env (refreshSettled env RefreshRejected FetchRejected s)) \<noteq> []" by simp
  from Suc.IH [OF r t this] u show ?case by simp
qed

text \<open>
  C8. When the refresh that a STREAM_END record started is rejected and the map of subscribers
  is not empty, a timer of 1000 ms is set whose callback runs the handler again with the same
  record. There is no count of attempts: after any number \<open>n\<close> of rejected refreshes in a
  row the next refresh has been called and is awaited, as long as there are subscribers.
\<close>

theorem streamEnd_retry:
  assumes "parseApi env (url event) = Some (apiBase, ns)" "getApi env apiBase = Some a"
    and "subscribers st \<noteq> []" "refreshing st = []" "timers st = []"
  shows "(\<forall>s. subscribers s \<noteq> [] \<longrightarrow>
            timers (afterRefresh env RefreshRejected fetched (a, ns, event) s) = timers s @ [(1000, event)]) \<and>
         timers (refreshSettled env RefreshRejected fetched (onServerStreamEnd env event st)) = [(1000, event)] \<and>
         refreshing (failedRefreshes env n (onServerStreamEnd env event st)) = [(a, ns, event)] \<and>
         timers (failedRefreshes env n (onServerStreamEnd env event st)) = [] \<and>
         subscribers (failedRefreshes env n (onServerStreamEnd env event st)) = subscribers st"
proof -
  from assms have s: "refreshing (onServerStreamEnd env event st) = [(a, ns, event)]"
    "timers (onServerStreamEnd env event st) = []" "subscribers (onServerStreamEnd env event st) \<noteq> []"
    by (simp_all add: onServerStreamEnd_def)
  from assms have u: "subscribers (onServerStreamEnd env event st) = subscribers st"
    by (simp add: onServerStreamEnd_def)
  from s have "timers (refreshSettled env RefreshRejected fetched (onServerStreamEnd env event st)) = [(1000, event)]"
    by (simp add: refreshSettled_def timers_afterRefresh_rejected)
  with retry_rounds [OF assms(1,2) s] u show ?thesis
    by (simp add: timers_afterRefresh_rejected)
qed

theorem streamEnd_retry_witness:
  "parseApi devEnv (url endEvent) = Some (''/api/v1/pods'', None) \<and>
   getApi devEnv ''/api/v1/pods'' = Some 1 \<and>
   subscribers soleState \<noteq> [] \<and> refreshing soleState = [] \<and> timers soleState = [] \<and>
   timers (refreshSettled devEnv RefreshRejected FetchRejected (onServerStreamEnd devEnv endEvent soleState)) =
     [(1000, endEvent)] \<and>
   refreshing (failedRefreshes devEnv 7 (onServerStreamEnd devEnv endEvent soleState)) = [(1, None, endEvent)] \<and>
   timers (failedRefreshes devEnv 7 (onServerStreamEnd devEnv endEvent soleState)) = [] \<and>
   subscribers sharedState \<noteq> [] \<and>
   timers (afterRefresh devEnv RefreshRejected FetchRejected (1, None, endEvent) sharedState) =
     timers sharedState @ [(1000, endEvent)]"
proof -
  have p: "parseApi devEnv (url endEvent) = Some (''/api/v1/pods'', None)"
    by (simp add: devEnv_def endEvent_def)
  have g: "getApi devEnv ''/api/v1/pods'' = Some 1"
    by (simp add: devEnv_def)
  have s: "subscribers soleState \<noteq> []" "refreshing soleState = []" "timers soleState = []"
    by (simp_all add: soleState_def subscribe_def increment_def initialState_def)
  have t: "subscribers sharedState \<noteq> []"
    by (simp add: sharedState_def subscribe_def increment_def initialState_def)
  from streamEnd_retry [OF p g s, of FetchRejected 7] p g s t show ?thesis by simp
qed

section \<open>The request payload and the connection\<close>

text \<open>
  C5. The payload that \<^verbatim>\<open>connect\<close> computes is, descriptor by descriptor in the order of
  \<^verbatim>\<open>activeApis\<close>: nothing for a kind the cluster does not allow (no error is raised), one watch
  URL for each namespace of the namespace store for a namespaced descriptor, one watch URL
  without a namespace otherwise. Every \<^verbatim>\<open>connect\<close> posts that payload, unless it is empty.
\<close>

theorem getRequestPayload_urls:
  "getRequestPayload env st =
     concat (map (\<lambda>a.
        if \<not> isAllowedResource env (apiKind env a) then []
        else if apiIsNamespaced env a then
          map (\<lambda>ns. getWatchUrl env a (Some ns) (getResourceVersion st a (Some ns))) (getContextNamespaces env)
        else [getWatchUrl env a None (getResourceVersion st a None)]) (activeApis st)) \<and>
   requests (connect env result st) =
     requests st @ (if getRequestPayload env st = [] then [] else [getRequestPayload env st])"
proof -
  have "watchUrls env (disconnect st) = watchUrls env st"
    by (auto simp: fun_eq_iff watchUrls_def getResourceVersion_def disconnect_def split: option.splits)
  moreover have "activeApis (disconnect st) = activeApis st"
    by (simp add: activeApis_def disconnect_def split: option.splits)
  ultimately have d: "getRequestPayload env (disconnect st) = getRequestPayload env st"
    by (simp add: getRequestPayload_def)
  have c: "requests (connect env result st) =
     requests st @ (if getRequestPayload env st = [] then [] else [getRequestPayload env st])"
    unfolding connect_def Let_def d
    by (simp add: log_def disconnect_def split: option.splits fetch_result.splits)
  have "(case watchUrls env st a of Url u \<Rightarrow> [u] | Urls us \<Rightarrow> us) =
        (if \<not> isAllowedResource env (apiKind env a) then []
         else if apiIsNamespaced env a then
           map (\<lambda>ns. getWatchUrl env a (Some ns) (getResourceVersion st a (Some ns))) (getContextNamespaces env)
         else [getWatchUrl env a None (getResourceVersion st a None)])" for a
    by (simp add: watchUrls_def)
  then have "getRequestPayload env st =
     concat (map (\<lambda>a.
        if \<not> isAllowedResource env (apiKind env a) then []
        else if apiIsNamespaced env a then
          map (\<lambda>ns. getWatchUrl env a (Some ns) (getResourceVersion st a (Some ns))) (getContextNamespaces env)
        else [getWatchUrl env a None (getResourceVersion st a None)]) (activeApis st))"
    by (simp add: getRequestPayload_def flat_def comp_def)
  with c show ?thesis by blast
qed

text \<open>Secrets, pods and nodes subscribed: two URLs for the pods, one for the nodes.\<close>

theorem getRequestPayload_urls_witness:
  "getRequestPayload devEnv (fst (subscribe [3, 1, 2] initialState)) =
     [''pods?ns=default&rv='', ''pods?ns=kube-system&rv='', ''nodes?ns=&rv=''] \<and>
   requests (connect devEnv (FetchResponse 200 True) (fst (subscribe [3, 1, 2] initialState))) =
     [[''pods?ns=default&rv='', ''pods?ns=kube-system&rv='', ''nodes?ns=&rv='']]"
  using getRequestPayload_urls [of devEnv "fst (subscribe [3, 1, 2] initialState)" "FetchResponse 200 True"]
  by (simp add: devEnv_def subscribe_def increment_def getSubscribersCount_def initialState_def
      activeApis_def getResourceVersion_def namespaceKey_def)

lemma connect_no_timer:
  "timers (connect env result st) = timers st \<and> emitted (connect env result st) = emitted st \<and>
   refreshing (connect env result st) = refreshing st \<and> subscribers (connect env result st) = subscribers st"
  by (simp add: connect_def disconnect_def log_def Let_def split: option.splits fetch_result.splits)

text \<open>
  C1. The claim does not hold of \<^verbatim>\<open>connect\<close>: the fields \<^verbatim>\<open>reconnectTimeoutMs\<close> and
  \<^verbatim>\<open>maxReconnectsOnError\<close> are declared and never read. With one subscriber of the pods and a
  \<^verbatim>\<open>fetch\<close> that is rejected, \<^verbatim>\<open>connect\<close> logs twice and is done: no timer is set, nothing
  is emitted, no stream is kept, one request was made. A response with status 503 is taken
  for a stream like any other; a response without a body ends in the same \<^verbatim>\<open>catch\<close> as the
  rejection.
\<close>

theorem connect_rejected:
  "reconnectTimeoutMs = 5000 \<and> maxReconnectsOnError = 10 \<and>
   timers (connect devEnv FetchRejected soleState) = [] \<and>
   emitted (connect devEnv FetchRejected soleState) = [] \<and>
   refreshing (connect devEnv FetchRejected soleState) = [] \<and>
   stream (connect devEnv FetchRejected soleState) = None \<and>
   console (connect devEnv FetchRejected soleState) =
     [ConsoleInfo ''connecting'', ConsoleError ''connection error''] \<and>
   requests (connect devEnv FetchRejected soleState) = [[''pods?ns=default&rv='', ''pods?ns=kube-system&rv='']] \<and>
   stream (connect devEnv (FetchResponse 503 True) soleState) =
     Some [''pods?ns=default&rv='', ''pods?ns=kube-system&rv=''] \<and>
   stream (connect devEnv (FetchResponse 204 False) soleState) = None \<and>
   timers (connect devEnv (FetchResponse 204 False) soleState) = [] \<and>
   emitted (connect devEnv (FetchResponse 204 False) soleState) = []"
  by (simp add: connect_def disconnect_def log_def Let_def getRequestPayload_def flat_def watchUrls_def
      devEnv_def soleState_def subscribe_def increment_def getSubscribersCount_def initialState_def
      activeApis_def getResourceVersion_def namespaceKey_def reconnectTimeoutMs_def
      maxReconnectsOnError_def)

section \<open>Chunks of the stream\<close>




















end
